theory Spec2Isabelle
  imports Main "HOL-Library.Sublist" "HOL-Library.Monad_Syntax"
begin

section \<open>C strings and the libc routines used by config.c\<close>

text \<open>
  A C string is modelled as a \<open>string\<close> (a list of bytes); the end of the list stands for
  the terminating NUL, so the lists never hold the byte 0 themselves.
\<close>

definition tolower :: "char \<Rightarrow> char" where
  "tolower c =
     (if 65 \<le> (of_char c :: nat) \<and> (of_char c :: nat) \<le> 90
      then char_of ((of_char c :: nat) + 32) else c)"

text \<open>
  \<open>strncasecmp(s1, s2, n)\<close>: compares at most \<open>n\<close> bytes, ignoring letter case, and
  stops at the terminator. POSIX fixes only the sign of the result, so the model returns
  \<open>-1\<close>, \<open>0\<close> or \<open>1\<close>.
\<close>

fun strncasecmp :: "string \<Rightarrow> string \<Rightarrow> nat \<Rightarrow> int" where
  "strncasecmp s1 s2 0 = 0"
| "strncasecmp [] [] (Suc n) = 0"
| "strncasecmp [] (b # bs) (Suc n) = - 1"
| "strncasecmp (a # as) [] (Suc n) = 1"
| "strncasecmp (a # as) (b # bs) (Suc n) =
     (if tolower a = tolower b then strncasecmp as bs n
      else if (of_char (tolower a) :: nat) < of_char (tolower b) then - 1 else 1)"

text \<open>
  \<open>memcmp(lit, val, n) == 0\<close> on two C strings: the bytes compared are those of the
  strings followed by their terminators. When \<open>n\<close> runs past the terminator of the
  literal the comparison has already met a differing byte, so the bytes behind it do not
  matter and \<open>take\<close> may cut them off.
\<close>

definition memcmp_eq :: "string \<Rightarrow> string \<Rightarrow> nat \<Rightarrow> bool" where
  "memcmp_eq lit val n = (take n (lit @ [CHR 0x00]) = take n (val @ [CHR 0x00]))"

text \<open>
  \<open>int\<close> is 32 bits wide. A conversion of a wider value keeps the low 32 bits, read as
  two's complement.
\<close>

definition to_int32 :: "int \<Rightarrow> int" where
  "to_int32 v = (v + 2147483648) mod 4294967296 - 2147483648"

text \<open>
  \<open>atoi\<close> on the strings the validator lets through (digits only): the decimal value of
  the leading digits, computed in \<open>long\<close> as \<open>strtol\<close> does (ten digits always fit
  into 64 bits) and then converted to \<open>int\<close>. ISO C leaves the result undefined when
  the value does not fit into \<open>int\<close>; the conversion written here is the one of glibc
  on LP64 platforms.
\<close>

fun strtol_digits :: "string \<Rightarrow> int \<Rightarrow> int" where
  "strtol_digits [] acc = acc"
| "strtol_digits (c # cs) acc =
     (if 48 \<le> (of_char c :: nat) \<and> (of_char c :: nat) \<le> 57
      then strtol_digits cs (acc * 10 + (int (of_char c) - 48)) else acc)"

definition atoi :: "string \<Rightarrow> int" where
  "atoi s = to_int32 (strtol_digits s 0)"






section \<open>The wstr routines\<close>

text \<open>
  Modelled from the spec: \<open>wstrStrip\<close> (wstr.c is not among the sources). The spec has
  the characters tab, newline, carriage return and space stripped from both ends of a
  line; the set of characters is the second argument of the call.
\<close>

definition wstrStrip :: "string \<Rightarrow> string \<Rightarrow> string" where
  "wstrStrip s chars =
     rev (dropWhile (\<lambda>c. c \<in> set chars) (rev (dropWhile (\<lambda>c. c \<in> set chars) s)))"

text \<open>
  Modelled from the spec: \<open>wstrNewSplit\<close> (wstr.c is not among the sources), as
  \<open>applyConfig\<close> calls it on the whole configuration text with the separator \<open>"\\n"\<close>. The
  spec has the text split on line breaks into its ordered sequence of lines. The empty
  text has no piece. The result is \<open>None\<close> for the null pointer of a failed allocation,
  which this model never produces.
\<close>

fun wstrSplitLoop :: "char \<Rightarrow> string \<Rightarrow> string \<Rightarrow> string list" where
  "wstrSplitLoop sep [] tok = [tok]"
| "wstrSplitLoop sep (c # cs) tok =
     (if c = sep then tok # wstrSplitLoop sep cs [] else wstrSplitLoop sep cs (tok @ [c]))"

definition wstrNewSplit :: "string \<Rightarrow> char \<Rightarrow> string list option" where
  "wstrNewSplit s sep = (if s = [] then Some [] else Some (wstrSplitLoop sep s []))"

text \<open>
  Modelled from the spec: \<open>wstrNewSplit\<close> (wstr.c is not among the sources), as
  \<open>applyConfig\<close> calls it on a stripped line with the separator \<open>" "\<close>. The spec has a line
  tokenized by splitting on a single space into at most two pieces, the setting name and
  the rest of the line as one combined second token; a line without a space is one piece.
\<close>

definition wstrNewSplit_tokens :: "string \<Rightarrow> char \<Rightarrow> string list option" where
  "wstrNewSplit_tokens s sep =
     (if s = [] then Some []
      else case dropWhile (\<lambda>c. c \<noteq> sep) s of
             [] \<Rightarrow> Some [s]
           | c # rest \<Rightarrow> Some [takeWhile (\<lambda>c. c \<noteq> sep) s, rest])"

section \<open>The data model of config.c\<close>

text \<open>
  \<open>struct enumIdName { int id; const char *name; }\<close>. A null \<open>name\<close> is \<open>None\<close>; it marks the
  sentinel that ends a table.
\<close>

record enumIdName =
  enum_id :: int
  enum_name :: "string option"

datatype format = STRING_FORMAT | INT_FORMAT | ENUM_FORMAT | BOOL_FORMAT | LIST_FORMAT

text \<open>
  The union \<open>target\<close> of an entry: \<open>val\<close>, \<open>ptr\<close> (null, a string or a list of strings) or
  \<open>enum_ptr\<close>. The enum tables are never written, so a pointer into a table is modelled
  by the entry it points to.
\<close>

datatype target = Val int | NullPtr | StrPtr string | ListPtr "string list" | EnumPtr enumIdName

text \<open>
  The \<open>void *helper\<close> of an entry: null, an integer cast to a pointer (a ceiling, or the
  marker \<open>WHEAT_NOTFREE\<close>), or the address of an enum table.
\<close>

datatype helper = NoHelper | IntHelper int | TableHelper "enumIdName list"

text \<open>The function pointer \<open>validator\<close> of an entry.\<close>

datatype validator_fn =
  StringValidator | ListValidator | UnsignedIntValidator | EnumValidator | BoolValidator

record configuration =
  name :: string
  args :: int
  validator :: validator_fn
  target :: target
  helper :: helper
  format :: format

text \<open>
  What a validator is handed as \<open>val\<close>: a token, the list built by \<open>handleList\<close>, a null
  pointer, or the slot \<open>argvs[1]\<close> of a line with a single token, which \<open>wstrNewSplit\<close> never
  wrote.
\<close>

datatype arg = StrArg string | ListArg "string list" | NullArg | IndeterminateArg

text \<open>
  Ways in which a run leaves defined behaviour or dies outside the diagnostic of
  \<open>applyConfig\<close>: a failed \<open>ASSERT\<close>, a read behind the end of an enum table, a pointer
  used at the wrong type, a write behind the end of a buffer.
\<close>

datatype fault = AssertFailed | ReadPastTable | BadPointer | BufferOverrun

datatype vresult = VALIDATE_OK configuration | VALIDATE_WRONG | Fault fault

text \<open>
  The macros of wheatserver.h that config.c uses and whose values are not among the
  sources. They are parameters of the model.
\<close>

record wheat_macros =
  WHEAT_DEBUG :: int
  WHEAT_VERBOSE :: int
  WHEAT_NOTICE :: int
  WHEAT_WARNING :: int
  WHEAT_NOTFREE :: int
  WHEAT_ARGS_NO_LIMIT :: int
  WHEAT_PROTOCOL_DEFAULT :: string
  WHEAT_DEFAULT_ADDR :: string
  WHEAT_SERVERPORT :: int
  WHEAT_MAX_BUFFER_SIZE :: int
  WHEAT_BUFLIMIT :: int
  WHEAT_STATS_ADDR :: string
  WHEAT_STATS_PORT :: int
  WHEAT_STAT_REFRESH :: int
  WHEATSERVER_TIMEOUT :: int
  WHEAT_MBUF_SIZE :: int

text \<open>
  An instance of the macros, for evaluating the model on concrete inputs. The theorems
  about \<open>configTable\<close> hold for every instance.
\<close>

definition sample_macros :: wheat_macros where
  "sample_macros =
     \<lparr>WHEAT_DEBUG = 0, WHEAT_VERBOSE = 1, WHEAT_NOTICE = 2, WHEAT_WARNING = 3,
      WHEAT_NOTFREE = 1, WHEAT_ARGS_NO_LIMIT = - 1,
      WHEAT_PROTOCOL_DEFAULT = ''Http'', WHEAT_DEFAULT_ADDR = ''127.0.0.1'',
      WHEAT_SERVERPORT = 10828, WHEAT_MAX_BUFFER_SIZE = 4194304,
      WHEAT_BUFLIMIT = 1073741824, WHEAT_STATS_ADDR = ''127.0.0.1'',
      WHEAT_STATS_PORT = 10829, WHEAT_STAT_REFRESH = 10, WHEATSERVER_TIMEOUT = 30,
      WHEAT_MBUF_SIZE = 4096\<rparr>"

text \<open>Modelled from the spec: the macro \<open>WHEAT_STR_NULL\<close>, the literal that unsets a string.\<close>

definition WHEAT_STR_NULL :: string where
  "WHEAT_STR_NULL = ''NULL''"

subsection \<open>The enum tables and the registry\<close>

definition Verbose :: "wheat_macros \<Rightarrow> enumIdName list" where
  "Verbose M =
     [\<lparr>enum_id = WHEAT_DEBUG M, enum_name = Some ''DEBUG''\<rparr>,
      \<lparr>enum_id = WHEAT_VERBOSE M, enum_name = Some ''VERBOSE''\<rparr>,
      \<lparr>enum_id = WHEAT_NOTICE M, enum_name = Some ''NOTICE''\<rparr>,
      \<lparr>enum_id = WHEAT_WARNING M, enum_name = Some ''WARNING''\<rparr>,
      \<lparr>enum_id = - 1, enum_name = None\<rparr>]"

definition Workers :: "enumIdName list" where
  "Workers =
     [\<lparr>enum_id = 0, enum_name = Some ''SyncWorker''\<rparr>,
      \<lparr>enum_id = 1, enum_name = Some ''AsyncWorker''\<rparr>]"

definition configTable :: "wheat_macros \<Rightarrow> configuration list" where
  "configTable M =
     [\<lparr>name = ''protocol'', args = 2, validator = StringValidator,
       target = StrPtr (WHEAT_PROTOCOL_DEFAULT M),
       helper = IntHelper (WHEAT_NOTFREE M), format = STRING_FORMAT\<rparr>,
      \<lparr>name = ''bind-addr'', args = 2, validator = StringValidator,
       target = StrPtr (WHEAT_DEFAULT_ADDR M),
       helper = IntHelper (WHEAT_NOTFREE M), format = STRING_FORMAT\<rparr>,
      \<lparr>name = ''port'', args = 2, validator = UnsignedIntValidator,
       target = Val (WHEAT_SERVERPORT M), helper = NoHelper, format = INT_FORMAT\<rparr>,
      \<lparr>name = ''worker-number'', args = 2, validator = UnsignedIntValidator,
       target = Val 2, helper = IntHelper 1024, format = INT_FORMAT\<rparr>,
      \<lparr>name = ''worker-type'', args = 2, validator = EnumValidator,
       target = EnumPtr (Workers ! 0), helper = TableHelper Workers, format = ENUM_FORMAT\<rparr>,
      \<lparr>name = ''logfile'', args = 2, validator = StringValidator,
       target = NullPtr, helper = NoHelper, format = STRING_FORMAT\<rparr>,
      \<lparr>name = ''logfile-level'', args = 2, validator = EnumValidator,
       target = EnumPtr (Verbose M ! 2), helper = TableHelper (Verbose M),
       format = ENUM_FORMAT\<rparr>,
      \<lparr>name = ''daemon'', args = 2, validator = BoolValidator,
       target = Val 0, helper = NoHelper, format = BOOL_FORMAT\<rparr>,
      \<lparr>name = ''pidfile'', args = 2, validator = StringValidator,
       target = NullPtr, helper = NoHelper, format = STRING_FORMAT\<rparr>,
      \<lparr>name = ''max-buffer-size'', args = 2, validator = UnsignedIntValidator,
       target = Val (WHEAT_MAX_BUFFER_SIZE M), helper = IntHelper (WHEAT_BUFLIMIT M),
       format = INT_FORMAT\<rparr>,
      \<lparr>name = ''stat-bind-addr'', args = 2, validator = StringValidator,
       target = StrPtr (WHEAT_STATS_ADDR M),
       helper = IntHelper (WHEAT_NOTFREE M), format = STRING_FORMAT\<rparr>,
      \<lparr>name = ''stat-port'', args = 2, validator = UnsignedIntValidator,
       target = Val (WHEAT_STATS_PORT M), helper = NoHelper, format = INT_FORMAT\<rparr>,
      \<lparr>name = ''stat-refresh-time'', args = 2, validator = UnsignedIntValidator,
       target = Val (WHEAT_STAT_REFRESH M), helper = NoHelper, format = INT_FORMAT\<rparr>,
      \<lparr>name = ''stat-file'', args = 2, validator = StringValidator,
       target = NullPtr, helper = NoHelper, format = STRING_FORMAT\<rparr>,
      \<lparr>name = ''timeout-seconds'', args = 2, validator = UnsignedIntValidator,
       target = Val (WHEATSERVER_TIMEOUT M), helper = IntHelper 300, format = INT_FORMAT\<rparr>,
      \<lparr>name = ''mbuf-size'', args = 2, validator = UnsignedIntValidator,
       target = Val (WHEAT_MBUF_SIZE M), helper = IntHelper (WHEAT_BUFLIMIT M),
       format = INT_FORMAT\<rparr>]"

text \<open>
  \<open>initServerConfs\<close> appends the entries of \<open>configTable\<close> to \<open>Server.confs\<close> in table order.
  The list holds pointers to the entries; in the model the registry is the list of the
  entries themselves and a pointer to an entry is its position.
\<close>

definition initServerConfs :: "wheat_macros \<Rightarrow> configuration list \<Rightarrow> configuration list" where
  "initServerConfs M confs = confs @ configTable M"

section \<open>The validators\<close>

text \<open>
  A validator returns \<open>VALIDATE_OK\<close> with the entry as it has written it, or
  \<open>VALIDATE_WRONG\<close> with the entry untouched. The calls of \<open>wfree\<close> and \<open>freeList\<close> change
  nothing that the model observes.
\<close>

definition helper_is_null :: "helper \<Rightarrow> bool" where
  "helper_is_null h = (h = NoHelper \<or> h = IntHelper 0)"

definition stringValidator :: "configuration \<Rightarrow> string \<Rightarrow> arg \<Rightarrow> vresult" where
  "stringValidator conf key val =
     (case val of
        NullArg \<Rightarrow> Fault AssertFailed
      | IndeterminateArg \<Rightarrow> Fault BadPointer
      | ListArg l \<Rightarrow> Fault BadPointer
      | StrArg v \<Rightarrow>
          (let conf1 = (if target conf \<noteq> NullPtr \<and> helper_is_null (helper conf)
                        then conf\<lparr>helper := NoHelper\<rparr> else conf)
           in if strncasecmp v WHEAT_STR_NULL (length WHEAT_STR_NULL + 1) = 0
              then VALIDATE_OK (conf1\<lparr>target := NullPtr\<rparr>)
              else VALIDATE_OK (conf1\<lparr>target := StrPtr v\<rparr>)))"

definition listValidator :: "configuration \<Rightarrow> string \<Rightarrow> arg \<Rightarrow> vresult" where
  "listValidator conf key val =
     (case val of
        NullArg \<Rightarrow> Fault AssertFailed
      | IndeterminateArg \<Rightarrow> Fault BadPointer
      | ListArg l \<Rightarrow> VALIDATE_OK (conf\<lparr>target := ListPtr l\<rparr>)
      | StrArg v \<Rightarrow> VALIDATE_OK (conf\<lparr>target := StrPtr v\<rparr>))"

text \<open>
  The loop of \<open>unsignedIntValidator\<close> over the bytes of \<open>val\<close>, \<open>i\<close> being the index of the
  byte at the head: \<open>True\<close> when the loop runs to the terminator. A byte above 127 gives a
  \<open>digit\<close> below 0 where \<open>char\<close> is signed and above 9 where it is unsigned, so it is
  refused either way.
\<close>

fun digitLoop :: "string \<Rightarrow> nat \<Rightarrow> bool" where
  "digitLoop [] i = True"
| "digitLoop (c # cs) i =
     (let digit = int (of_char c) - 48
      in if digit < 0 \<or> digit > 9 then False
         else if i \<ge> 10 then False
         else digitLoop cs (Suc i))"

definition unsignedIntValidator :: "configuration \<Rightarrow> string \<Rightarrow> arg \<Rightarrow> vresult" where
  "unsignedIntValidator conf key val =
     (case val of
        NullArg \<Rightarrow> Fault AssertFailed
      | IndeterminateArg \<Rightarrow> Fault BadPointer
      | ListArg l \<Rightarrow> Fault BadPointer
      | StrArg v \<Rightarrow>
          (case helper conf of
             TableHelper t \<Rightarrow> Fault BadPointer
           | NoHelper \<Rightarrow>
               (if \<not> digitLoop v 0 then VALIDATE_WRONG
                else VALIDATE_OK (conf\<lparr>target := Val (atoi v)\<rparr>))
           | IntHelper max_limit \<Rightarrow>
               (if \<not> digitLoop v 0 then VALIDATE_WRONG
                else if max_limit \<noteq> 0 \<and> atoi v > max_limit then VALIDATE_WRONG
                else VALIDATE_OK (conf\<lparr>target := Val (atoi v)\<rparr>))))"

text \<open>
  The loop of \<open>enumValidator\<close>: \<open>sentinel\<close> walks the table from the address in \<open>helper\<close>
  until it meets a null name. The test \<open>sentinel == NULL\<close> in the loop cannot succeed,
  since \<open>sentinel\<close> has just been dereferenced. A table that ends before a match or a
  null name lets the walk run behind the array.
\<close>

fun enumLoop :: "configuration \<Rightarrow> enumIdName list \<Rightarrow> string \<Rightarrow> vresult" where
  "enumLoop conf [] v = Fault ReadPastTable"
| "enumLoop conf (sentinel # rest) v =
     (case enum_name sentinel of
        None \<Rightarrow> VALIDATE_WRONG
      | Some n \<Rightarrow>
          (if strncasecmp v n (length n) = 0
           then VALIDATE_OK (conf\<lparr>target := EnumPtr sentinel\<rparr>)
           else enumLoop conf rest v))"

definition enumValidator :: "configuration \<Rightarrow> string \<Rightarrow> arg \<Rightarrow> vresult" where
  "enumValidator conf key val =
     (case val of
        NullArg \<Rightarrow> Fault AssertFailed
      | IndeterminateArg \<Rightarrow> Fault BadPointer
      | ListArg l \<Rightarrow> Fault BadPointer
      | StrArg v \<Rightarrow>
          (case helper conf of
             NoHelper \<Rightarrow> Fault AssertFailed
           | IntHelper a \<Rightarrow> (if a = 0 then Fault AssertFailed else Fault BadPointer)
           | TableHelper t \<Rightarrow> enumLoop conf t v))"

definition boolValidator :: "configuration \<Rightarrow> string \<Rightarrow> arg \<Rightarrow> vresult" where
  "boolValidator conf key val =
     (case val of
        NullArg \<Rightarrow> Fault BadPointer
      | IndeterminateArg \<Rightarrow> Fault BadPointer
      | ListArg l \<Rightarrow> Fault BadPointer
      | StrArg v \<Rightarrow>
          (let len = length v + 1
           in if memcmp_eq ''on'' v len then VALIDATE_OK (conf\<lparr>target := Val 1\<rparr>)
              else if memcmp_eq ''off'' v len then VALIDATE_OK (conf\<lparr>target := Val 0\<rparr>)
              else VALIDATE_WRONG))"

text \<open>The call \<open>conf->validator(conf, key, val)\<close> through the function pointer.\<close>

definition call_validator :: "configuration \<Rightarrow> string \<Rightarrow> arg \<Rightarrow> vresult" where
  "call_validator conf key val =
     (case validator conf of
        StringValidator \<Rightarrow> stringValidator conf key val
      | ListValidator \<Rightarrow> listValidator conf key val
      | UnsignedIntValidator \<Rightarrow> unsignedIntValidator conf key val
      | EnumValidator \<Rightarrow> enumValidator conf key val
      | BoolValidator \<Rightarrow> boolValidator conf key val)"

section \<open>Lookup in the registry\<close>

text \<open>
  \<open>getConfiguration\<close> walks \<open>Server.confs\<close> from its head and returns the first entry whose
  comparison succeeds, or null. The result is the position of the entry.
\<close>

fun listSearch :: "configuration list \<Rightarrow> string \<Rightarrow> nat \<Rightarrow> nat option" where
  "listSearch [] nm k = None"
| "listSearch (conf # rest) nm k =
     (if strncasecmp nm (name conf) (length nm) = 0 then Some k
      else listSearch rest nm (Suc k))"

definition getConfiguration :: "configuration list \<Rightarrow> string \<Rightarrow> nat option" where
  "getConfiguration confs nm = listSearch confs nm 0"

section \<open>The flat structure \<open>Server\<close>\<close>

text \<open>The fields of the global \<open>Server\<close> that \<open>fillServerConfig\<close> writes.\<close>

record globalServer =
  bind_addr :: "string option"
  port :: int
  worker_number :: int
  worker_type :: "string option"
  logfile :: "string option"
  verbose :: int
  daemon :: int
  pidfile :: "string option"
  max_buffer_size :: int
  stat_addr :: "string option"
  stat_port :: int
  stat_refresh_seconds :: int
  stat_file :: "string option"
  worker_timeout :: int
  mbuf_size :: int

text \<open>
  Reading a member of the union: \<open>None\<close> where the union holds a value of another kind,
  which the C code would reinterpret.
\<close>

definition target_ptr :: "configuration \<Rightarrow> string option option" where
  "target_ptr conf =
     (case target conf of NullPtr \<Rightarrow> Some None | StrPtr s \<Rightarrow> Some (Some s) | _ \<Rightarrow> None)"

definition target_val :: "configuration \<Rightarrow> int option" where
  "target_val conf = (case target conf of Val v \<Rightarrow> Some v | _ \<Rightarrow> None)"

definition target_enum_ptr :: "configuration \<Rightarrow> enumIdName option" where
  "target_enum_ptr conf = (case target conf of EnumPtr e \<Rightarrow> Some e | _ \<Rightarrow> None)"

text \<open>
  \<open>fillServerConfig\<close> starts at \<open>&configTable[1]\<close> and steps through the fifteen entries
  that follow \<open>protocol\<close>. The registry must hold the table at its head.
\<close>

definition fillServerConfig :: "configuration list \<Rightarrow> globalServer option" where
  "fillServerConfig confs =
     (if length confs < 16 then None else
      do {
        f1 \<leftarrow> target_ptr (confs ! 1);
        f2 \<leftarrow> target_val (confs ! 2);
        f3 \<leftarrow> target_val (confs ! 3);
        f4 \<leftarrow> target_enum_ptr (confs ! 4);
        f5 \<leftarrow> target_ptr (confs ! 5);
        f6 \<leftarrow> target_enum_ptr (confs ! 6);
        f7 \<leftarrow> target_val (confs ! 7);
        f8 \<leftarrow> target_ptr (confs ! 8);
        f9 \<leftarrow> target_val (confs ! 9);
        f10 \<leftarrow> target_ptr (confs ! 10);
        f11 \<leftarrow> target_val (confs ! 11);
        f12 \<leftarrow> target_val (confs ! 12);
        f13 \<leftarrow> target_ptr (confs ! 13);
        f14 \<leftarrow> target_val (confs ! 14);
        f15 \<leftarrow> target_val (confs ! 15);
        Some \<lparr>bind_addr = f1, port = f2, worker_number = f3, worker_type = enum_name f4,
              logfile = f5, verbose = enum_id f6, daemon = f7, pidfile = f8,
              max_buffer_size = f9, stat_addr = f10, stat_port = f11,
              stat_refresh_seconds = f12, stat_file = f13, worker_timeout = f14,
              mbuf_size = f15\<rparr>
      })"

text \<open>The two conditions that \<open>extraValidator\<close> asserts.\<close>

definition extraValidator :: "globalServer \<Rightarrow> bool" where
  "extraValidator Server =
     (stat_refresh_seconds Server < worker_timeout Server
      \<and> port Server \<noteq> 0 \<and> stat_port Server \<noteq> 0)"

section \<open>The formatter\<close>




section \<open>The line parser\<close>

text \<open>The characters that \<open>applyConfig\<close> and \<open>handleList\<close> strip: \<open>"\\t\\n\\r "\<close>.\<close>

definition strip_chars :: string where
  "strip_chars = [CHR 0x09, CHR 0x0A, CHR 0x0D, CHR '' '']"

text \<open>
  The inner loop of \<open>handleList\<close> over one stripped line, from the byte at \<open>len\<close> on, with
  the flag \<open>line_valid\<close>: it jumps to \<open>handle_error\<close>, or it runs to the end of the line
  and has appended at most one item.
\<close>

datatype scan = HandleError | LineDone "string option"

fun scanItem :: "string \<Rightarrow> bool \<Rightarrow> scan" where
  "scanItem [] line_valid = LineDone None"
| "scanItem (ch # rest) line_valid =
     (if ch = CHR '' '' then scanItem rest line_valid
      else if ch = CHR ''-'' then
        (if \<not> line_valid then scanItem rest True else HandleError)
      else
        (if \<not> line_valid then HandleError else LineDone (Some (ch # rest))))"

text \<open>
  The outer loop of \<open>handleList\<close>: the lines from \<open>lines[pos]\<close> on, the list \<open>l\<close> built so
  far; it returns the list and the value of \<open>pos\<close> at the label \<open>handle_error\<close>.
\<close>

fun handleListLoop :: "string list \<Rightarrow> nat \<Rightarrow> string list \<Rightarrow> string list \<times> nat" where
  "handleListLoop [] pos l = (l, pos)"
| "handleListLoop (ln # rest) pos l =
     (case scanItem (wstrStrip ln strip_chars) False of
        HandleError \<Rightarrow> (l, pos)
      | LineDone None \<Rightarrow> handleListLoop rest (Suc pos) l
      | LineDone (Some item) \<Rightarrow> handleListLoop rest (Suc pos) (l @ [item]))"

text \<open>\<open>handleList(lines, &i, count)\<close>: the list and the new value of \<open>i\<close>, which is \<open>pos - 1\<close>.\<close>

definition handleList :: "string list \<Rightarrow> nat \<Rightarrow> string list \<times> nat" where
  "handleList lines i =
     (let (l, pos) = handleListLoop (drop (Suc i) lines) (Suc i) []
      in (l, pos - 1))"

section \<open>The apply pipeline\<close>

text \<open>
  The loop that joins the tokens from \<open>argvs[j]\<close> on to \<open>argvs[1]\<close>.
  Modelled from the spec: \<open>wstrCatLen\<close> (wstr.c is not among the sources) appends its
  second argument to the first, without a separator.
\<close>

function catLoop :: "string list \<Rightarrow> nat \<Rightarrow> string list" where
  "catLoop argvs j =
     (if j < length argvs then catLoop (argvs[1 := argvs ! 1 @ argvs ! j]) (Suc j)
      else argvs)"
  by pat_completeness auto
termination
  by (relation "measure (\<lambda>(argvs, j). length argvs - j)") auto

declare catLoop.simps [simp del]

text \<open>
  One pass through the body of the loop of \<open>applyConfig\<close>, at line \<open>i\<close>: the registry and
  the value of \<open>i\<close> at the end of the body, or the diagnostic of \<open>loaderr\<close> (the line
  number printed and the reason), or a fault.
\<close>

datatype step = Next "configuration list" nat | Stop nat string | Abort fault

definition applyStep :: "wheat_macros \<Rightarrow> configuration list \<Rightarrow> string list \<Rightarrow> nat \<Rightarrow> step" where
  "applyStep M confs lines i =
     (case wstrStrip (lines ! i) strip_chars of
        [] \<Rightarrow> Next confs i
      | c # cs \<Rightarrow>
          if c = CHR ''#'' \<or> c = CHR '' '' then Next confs i
          else
            (case wstrNewSplit_tokens (c # cs) (CHR '' '') of
               None \<Rightarrow> Stop (i + 1) ''Memory alloc failed''
             | Some argvs \<Rightarrow>
                 (case getConfiguration confs (argvs ! 0) of
                    None \<Rightarrow> Stop (i + 1) ''Unknown configuration name''
                  | Some k \<Rightarrow>
                      (let conf = confs ! k;
                           nargs = int (length argvs);
                           ptr = (if 1 < length argvs then StrArg (argvs ! 1)
                                  else IndeterminateArg);
                           (ptr1, i1, argvs1) =
                             (if nargs = 1 \<and> format conf = LIST_FORMAT
                              then (let (l, j) = handleList lines i in (ListArg l, j, argvs))
                              else if nargs \<noteq> args conf \<and> nargs = 2
                              then (ptr, i, catLoop argvs 2)
                              else (ptr, i, argvs))
                       in if nargs \<noteq> args conf \<and> args conf \<noteq> WHEAT_ARGS_NO_LIMIT M
                          then Stop (i1 + 1) ''Incorrect args''
                          else
                            (case call_validator conf (argvs1 ! 0) ptr1 of
                               VALIDATE_OK conf1 \<Rightarrow> Next (confs[k := conf1]) i1
                             | VALIDATE_WRONG \<Rightarrow> Stop (i1 + 1) ''Validate Failed''
                             | Fault f \<Rightarrow> Abort f)))))"

text \<open>
  The loop of \<open>applyConfig\<close> from line \<open>i\<close> on: the registry after the last line, or the
  diagnostic and \<open>halt(1)\<close>, or a fault.
\<close>

datatype applied = Applied "configuration list" | Halt nat string | Aborted fault

function applyLoop :: "wheat_macros \<Rightarrow> configuration list \<Rightarrow> string list \<Rightarrow> nat \<Rightarrow> applied" where
  "applyLoop M confs lines i =
     (if i < length lines then
        (case applyStep M confs lines i of
           Next confs1 i1 \<Rightarrow> applyLoop M confs1 lines (Suc i1)
         | Stop n err \<Rightarrow> Halt n err
         | Abort f \<Rightarrow> Aborted f)
      else Applied confs)"
  by pat_completeness auto
termination
proof (relation "measure (\<lambda>(M, confs, lines, i). length lines - i)")
  show "wf (measure (\<lambda>(M, confs, lines, i). length lines - i))"
    by simp
next
  fix M :: wheat_macros and confs confs1 :: "configuration list"
    and lines :: "string list" and i i1 :: nat
  assume less: "i < length lines" and st: "applyStep M confs lines i = Next confs1 i1"
  have mono: "pos \<le> snd (handleListLoop rest pos l)" for rest pos l
  proof (induction rest arbitrary: pos l)
    case Nil
    show ?case by simp
  next
    case (Cons ln rest)
    have "Suc pos \<le> snd (handleListLoop rest (Suc pos) l')" for l'
      by (rule Cons.IH)
    then have "pos \<le> snd (handleListLoop rest (Suc pos) l')" for l'
      using Suc_leD by blast
    then show ?case
      by (simp split: scan.split option.split)
  qed
  have "Suc i \<le> snd (handleListLoop (drop (Suc i) lines) (Suc i) [])"
    by (rule mono)
  then have hl: "i \<le> snd (handleList lines i)"
    by (simp add: handleList_def split_def Let_def)
  have "i \<le> i1"
    using st hl
    by (auto simp: applyStep_def Let_def split_def
        split: list.splits if_splits option.splits vresult.splits)
  then show "((M, confs1, lines, Suc i1), (M, confs, lines, i))
      \<in> measure (\<lambda>(M, confs, lines, i). length lines - i)"
    using less by simp
qed

declare applyLoop.simps [simp del]

text \<open>
  \<open>applyConfig\<close>: the text is split into lines, the loop runs, and on success
  \<open>fillServerConfig\<close> fills \<open>Server\<close> from the registry.
\<close>

datatype loaded = Loaded "configuration list" globalServer | Fatal nat string | Died fault

definition applyConfig :: "wheat_macros \<Rightarrow> configuration list \<Rightarrow> string \<Rightarrow> loaded" where
  "applyConfig M confs config =
     (case wstrNewSplit config (CHR 0x0A) of
        None \<Rightarrow> Fatal 1 ''Memory alloc failed''
      | Some lines \<Rightarrow>
          (case applyLoop M confs lines 0 of
             Halt n err \<Rightarrow> Fatal n err
           | Aborted f \<Rightarrow> Died f
           | Applied confs1 \<Rightarrow>
               (case fillServerConfig confs1 of
                  None \<Rightarrow> Died BadPointer
                | Some Server \<Rightarrow> Loaded confs1 Server)))"

text \<open>
  \<open>loadConfigFile\<close>: \<open>file\<close> is what the \<open>fgets\<close> loop has read from the named file (empty
  when no file is named), \<open>options\<close> the override text or null. After \<open>applyConfig\<close> the
  assertions of \<open>extraValidator\<close> run.
  Modelled from the spec: the macro \<open>ASSERT\<close> (not among the sources); the spec has a
  violated condition end the process.
\<close>

definition loadConfigFile :: "wheat_macros \<Rightarrow> configuration list \<Rightarrow> string \<Rightarrow> string option \<Rightarrow> loaded" where
  "loadConfigFile M confs file options =
     (let config = (case options of None \<Rightarrow> file
                    | Some opts \<Rightarrow> file @ [CHR 0x0A] @ opts)
      in case applyConfig M confs config of
           Loaded confs1 Server \<Rightarrow>
             (if extraValidator Server then Loaded confs1 Server else Died AssertFailed)
         | Fatal n err \<Rightarrow> Fatal n err
         | Died f \<Rightarrow> Died f)"

text \<open>
  The states in which the loop of \<open>applyConfig\<close> stands at its head: the registry and the
  index of the line read next.
\<close>

inductive visits :: "wheat_macros \<Rightarrow> string list \<Rightarrow> configuration list \<Rightarrow>
    configuration list \<times> nat \<Rightarrow> bool"
  for M :: wheat_macros and lines :: "string list" and confs0 :: "configuration list" where
  visits_start: "visits M lines confs0 (confs0, 0)"
| visits_step: "visits M lines confs0 (confs, i) \<Longrightarrow> i < length lines \<Longrightarrow>
     applyStep M confs lines i = Next confs1 i1 \<Longrightarrow> visits M lines confs0 (confs1, Suc i1)"

section \<open>Notions used to state the properties\<close>

text \<open>\<open>q\<close> is a prefix of \<open>s\<close> when letter case is ignored.\<close>

definition ci_prefix :: "string \<Rightarrow> string \<Rightarrow> bool" where
  "ci_prefix q s = prefix (map tolower q) (map tolower s)"

text \<open>
  The condition under which the body of the loop of \<open>applyConfig\<close> enters the branch that
  calls \<open>handleList\<close>, at line \<open>i\<close>: the line is not skipped, its first token resolves to
  an entry, it has one token and the entry is of the list kind.
\<close>

definition takesListBranch :: "configuration list \<Rightarrow> string list \<Rightarrow> nat \<Rightarrow> bool" where
  "takesListBranch confs lines i =
     (case wstrStrip (lines ! i) strip_chars of
        [] \<Rightarrow> False
      | c # cs \<Rightarrow>
          if c = CHR ''#'' \<or> c = CHR '' '' then False
          else
            (case wstrNewSplit_tokens (c # cs) (CHR '' '') of
               None \<Rightarrow> False
             | Some argvs \<Rightarrow>
                 (case getConfiguration confs (argvs ! 0) of
                    None \<Rightarrow> False
                  | Some k \<Rightarrow> length argvs = 1 \<and> format (confs ! k) = LIST_FORMAT)))"

definition holds_list :: "target \<Rightarrow> bool" where
  "holds_list t = (case t of ListPtr l \<Rightarrow> True | _ \<Rightarrow> False)"

text \<open>
  The item pattern in the words of the specification: zero or more spaces, exactly one
  \<open>-\<close> marker, then the item text.
\<close>

definition item_line :: "string \<Rightarrow> bool" where
  "item_line s =
     (case dropWhile (\<lambda>c. c = CHR '' '') s of
        [] \<Rightarrow> False
      | c # r \<Rightarrow>
          c = CHR ''-'' \<and>
          (case dropWhile (\<lambda>c. c = CHR '' '') r of [] \<Rightarrow> False | d # t \<Rightarrow> d \<noteq> CHR ''-''))"

text \<open>
  The lines that end a list block: the first character that is not a space is not the
  marker, or a second marker follows the first one with only spaces between them.
\<close>

definition ends_block :: "string \<Rightarrow> bool" where
  "ends_block s =
     (case dropWhile (\<lambda>c. c = CHR '' '') s of
        [] \<Rightarrow> False
      | c # r \<Rightarrow>
          if c = CHR ''-''
          then (case dropWhile (\<lambda>c. c = CHR '' '') r of [] \<Rightarrow> False | d # t \<Rightarrow> d = CHR ''-'')
          else True)"

text \<open>
  The items a line of a block contributes: the text behind the marker and the spaces
  that follow it, if there is any; nothing for a blank line or a lone marker.
\<close>

definition item_text :: "string \<Rightarrow> string list" where
  "item_text s =
     (case dropWhile (\<lambda>c. c = CHR '' '') s of
        [] \<Rightarrow> []
      | c # r \<Rightarrow>
          if c = CHR ''-''
          then (case dropWhile (\<lambda>c. c = CHR '' '') r of [] \<Rightarrow> [] | d # t \<Rightarrow> [d # t])
          else [])"


text \<open>The two parts of a successful load.\<close>

definition server_of :: "loaded \<Rightarrow> globalServer option" where
  "server_of r = (case r of Loaded confs Server \<Rightarrow> Some Server | _ \<Rightarrow> None)"

definition registry_of :: "loaded \<Rightarrow> configuration list" where
  "registry_of r = (case r of Loaded confs Server \<Rightarrow> confs | _ \<Rightarrow> [])"

section \<open>Properties of the registry lookup\<close>

text \<open>
  The two comparisons of config.c, in terms of prefixes: \<open>getConfiguration\<close> compares over
  the length of the query, \<open>enumValidator\<close> over the length of the candidate name.
\<close>

lemma strncasecmp_query: "(strncasecmp q s (length q) = 0) = ci_prefix q s"
  unfolding ci_prefix_def
proof (induction q arbitrary: s)
  case Nil
  show ?case by simp
next
  case (Cons a q)
  show ?case
  proof (cases s)
    case Nil
    then show ?thesis by simp
  next
    case (Cons b t)
    then show ?thesis using Cons.IH [of t] by simp
  qed
qed

lemma strncasecmp_candidate: "(strncasecmp v n (length n) = 0) = ci_prefix n v"
  unfolding ci_prefix_def
proof (induction n arbitrary: v)
  case Nil
  show ?case by simp
next
  case (Cons b n)
  show ?case
  proof (cases v)
    case Nil
    then show ?thesis by simp
  next
    case (Cons a t)
    then show ?thesis using Cons.IH [of t] by auto
  qed
qed

lemma listSearch_shift:
  "(case listSearch confs q j of
      None \<Rightarrow> \<forall>c\<in>set confs. \<not> ci_prefix q (name c)
    | Some k \<Rightarrow> j \<le> k \<and> k - j < length confs \<and> ci_prefix q (name (confs ! (k - j)))
        \<and> (\<forall>m<k - j. \<not> ci_prefix q (name (confs ! m))))"
proof (induction confs arbitrary: j)
  case Nil
  show ?case by simp
next
  case (Cons c confs)
  show ?case
  proof (cases "ci_prefix q (name c)")
    case True
    then show ?thesis by (simp add: strncasecmp_query)
  next
    case False
    show ?thesis
    proof (cases "listSearch confs q (Suc j)")
      case None
      then show ?thesis using Cons.IH [of "Suc j"] False
        by (simp add: strncasecmp_query)
    next
      case (Some k)
      then have h: "Suc j \<le> k \<and> k - Suc j < length confs
          \<and> ci_prefix q (name (confs ! (k - Suc j)))
          \<and> (\<forall>m<k - Suc j. \<not> ci_prefix q (name (confs ! m)))"
        using Cons.IH [of "Suc j"] by simp
      then have e: "k - j = Suc (k - Suc j)" by arith
      have "\<forall>m<k - j. \<not> ci_prefix q (name ((c # confs) ! m))"
      proof (intro allI impI)
        fix m assume "m < k - j"
        then show "\<not> ci_prefix q (name ((c # confs) ! m))"
          using h False e by (cases m) auto
      qed
      then show ?thesis using Some h False e
        by (simp add: strncasecmp_query)
    qed
  qed
qed

text \<open>
  C7: \<open>getConfiguration\<close> compares the query with each stored name over the length of
  the query, ignoring case, so it succeeds exactly on the entries whose name has the query
  as a prefix; it returns the first such entry in registration order and null when there
  is none. The query \<open>time\<close> resolves to the entry \<open>timeout-seconds\<close> of the shipped table.
\<close>

theorem getConfiguration_first_ci_prefix:
  "(case getConfiguration confs q of
      None \<Rightarrow> \<forall>c\<in>set confs. \<not> ci_prefix q (name c)
    | Some k \<Rightarrow> k < length confs \<and> ci_prefix q (name (confs ! k))
        \<and> (\<forall>j<k. \<not> ci_prefix q (name (confs ! j))))
   \<and> (strncasecmp q s (length q) = 0) = ci_prefix q s
   \<and> getConfiguration (configTable M) ''time'' = Some 14
   \<and> name (configTable M ! 14) = ''timeout-seconds''"
proof -
  have a: "(case getConfiguration confs q of
      None \<Rightarrow> \<forall>c\<in>set confs. \<not> ci_prefix q (name c)
    | Some k \<Rightarrow> k < length confs \<and> ci_prefix q (name (confs ! k))
        \<and> (\<forall>j<k. \<not> ci_prefix q (name (confs ! j))))"
    using listSearch_shift [of confs q 0]
    by (simp add: getConfiguration_def split: option.splits)
  have b: "getConfiguration (configTable M) ''time'' = Some 14"
    by (simp add: getConfiguration_def configTable_def tolower_def numeral_eq_Suc)
  have c: "name (configTable M ! 14) = ''timeout-seconds''"
    by (simp add: configTable_def)
  show ?thesis using a b c strncasecmp_query by simp
qed

text \<open>The lookup of \<open>time\<close> in the shipped table, through the theorem.\<close>

theorem getConfiguration_first_ci_prefix_witness:
  "getConfiguration (configTable sample_macros) ''time'' = Some 14
   \<and> ci_prefix ''time'' (name (configTable sample_macros ! 14))
   \<and> \<not> ci_prefix ''time'' (name (configTable sample_macros ! 2))"
proof -
  have g: "getConfiguration (configTable sample_macros) ''time'' = Some 14"
    by code_simp
  note t = getConfiguration_first_ci_prefix
    [of "configTable sample_macros" "''time''" "[]" sample_macros]
  have "(2::nat) < 14" by simp
  with t [unfolded g option.case] show ?thesis using g by blast
qed

section \<open>Properties of the enum validator\<close>

lemma enumLoop_skip:
  "list_all (\<lambda>x. case enum_name x of None \<Rightarrow> False | Some n \<Rightarrow> \<not> ci_prefix n v) pre
   \<Longrightarrow> enumLoop conf (pre @ rest) v = enumLoop conf rest v"
  by (induction pre) (auto simp: strncasecmp_candidate split: option.splits)

lemma enumLoop_find:
  "list_all (\<lambda>e. enum_name e \<noteq> None) named
   \<Longrightarrow> enumLoop conf (named @ rest) v =
       (case find (\<lambda>e. ci_prefix (the (enum_name e)) v) named of
          Some e \<Rightarrow> VALIDATE_OK (conf\<lparr>target := EnumPtr e\<rparr>)
        | None \<Rightarrow> enumLoop conf rest v)"
  by (induction named) (auto simp: strncasecmp_candidate split: option.splits)

text \<open>
  C8: the table is scanned in order. When the entries before \<open>e\<close> all have a name that is
  not a prefix of the input (ignoring case) and the name of \<open>e\<close> is one, \<open>e\<close> is selected and
  committed, whatever entries follow it; the comparison runs over the length of the
  candidate name, not of the input.
\<close>

theorem enumValidator_first_match:
  assumes "helper conf = TableHelper (pre @ e # post)"
    and "list_all (\<lambda>x. case enum_name x of None \<Rightarrow> False | Some m \<Rightarrow> \<not> ci_prefix m v) pre"
    and "enum_name e = Some n"
    and "ci_prefix n v"
  shows "enumValidator conf key (StrArg v) = VALIDATE_OK (conf\<lparr>target := EnumPtr e\<rparr>)
         \<and> (strncasecmp v n (length n) = 0) = ci_prefix n v"
proof -
  have "enumLoop conf (pre @ e # post) v = enumLoop conf (e # post) v"
    using assms(2) by (rule enumLoop_skip)
  also have "\<dots> = VALIDATE_OK (conf\<lparr>target := EnumPtr e\<rparr>)"
    using assms(3,4) by (simp add: strncasecmp_candidate)
  finally show ?thesis
    using assms(1) by (simp add: enumValidator_def strncasecmp_candidate)
qed

text \<open>
  A table in which \<open>DEBUG\<close> stands before \<open>DEBUGGER\<close>: the input \<open>debugger\<close> selects
  \<open>DEBUG\<close>.
\<close>

theorem enumValidator_first_match_witness:
  "enumValidator
     \<lparr>name = ''level'', args = 2, validator = EnumValidator, target = NullPtr,
      helper = TableHelper
        ([] @ \<lparr>enum_id = 0, enum_name = Some ''DEBUG''\<rparr>
          # [\<lparr>enum_id = 1, enum_name = Some ''DEBUGGER''\<rparr>,
             \<lparr>enum_id = - 1, enum_name = None\<rparr>]),
      format = ENUM_FORMAT\<rparr>
     ''level'' (StrArg ''debugger'')
   = VALIDATE_OK
       \<lparr>name = ''level'', args = 2, validator = EnumValidator,
        target = EnumPtr \<lparr>enum_id = 0, enum_name = Some ''DEBUG''\<rparr>,
        helper = TableHelper
          ([] @ \<lparr>enum_id = 0, enum_name = Some ''DEBUG''\<rparr>
            # [\<lparr>enum_id = 1, enum_name = Some ''DEBUGGER''\<rparr>,
               \<lparr>enum_id = - 1, enum_name = None\<rparr>]),
        format = ENUM_FORMAT\<rparr>
   \<and> ci_prefix ''DEBUGGER'' ''debugger''"
proof -
  have p: "ci_prefix ''DEBUG'' ''debugger''" by code_simp
  have q: "ci_prefix ''DEBUGGER'' ''debugger''" by code_simp
  show ?thesis
    using enumValidator_first_match
      [of "\<lparr>name = ''level'', args = 2, validator = EnumValidator, target = NullPtr,
            helper = TableHelper
              ([] @ \<lparr>enum_id = 0, enum_name = Some ''DEBUG''\<rparr>
                # [\<lparr>enum_id = 1, enum_name = Some ''DEBUGGER''\<rparr>,
                   \<lparr>enum_id = - 1, enum_name = None\<rparr>]),
            format = ENUM_FORMAT\<rparr>"
          "[]" "\<lparr>enum_id = 0, enum_name = Some ''DEBUG''\<rparr>"
          "[\<lparr>enum_id = 1, enum_name = Some ''DEBUGGER''\<rparr>,
            \<lparr>enum_id = - 1, enum_name = None\<rparr>]"
          "''debugger''" "''DEBUG''" "''level''"]
      p q
    by simp
qed

text \<open>
  C2, as amended: in a table whose entries \<open>named\<close> all have a name, an input is accepted
  when one of these names is a prefix of the input, ignoring case, and the entry committed
  is the first such; when none is and the sentinel follows, the input is rejected. So the
  complete name of an option is accepted in any letter case, and a proper prefix of a name
  is rejected unless another name is a prefix of it.
\<close>

theorem enumValidator_accepts_extensions:
  assumes "helper conf = TableHelper (named @ rest)"
    and "list_all (\<lambda>e. enum_name e \<noteq> None) named"
  shows "(list_ex (\<lambda>e. ci_prefix (the (enum_name e)) v) named \<longrightarrow>
            (\<exists>e. find (\<lambda>e. ci_prefix (the (enum_name e)) v) named = Some e
               \<and> enumValidator conf key (StrArg v) = VALIDATE_OK (conf\<lparr>target := EnumPtr e\<rparr>)))
         \<and> (\<not> list_ex (\<lambda>e. ci_prefix (the (enum_name e)) v) named
              \<and> (\<exists>s r. rest = s # r \<and> enum_name s = None) \<longrightarrow>
            enumValidator conf key (StrArg v) = VALIDATE_WRONG)"
proof -
  have ev: "enumValidator conf key (StrArg v) =
      (case find (\<lambda>e. ci_prefix (the (enum_name e)) v) named of
         Some e \<Rightarrow> VALIDATE_OK (conf\<lparr>target := EnumPtr e\<rparr>)
       | None \<Rightarrow> enumLoop conf rest v)"
    using assms enumLoop_find [of named conf rest v] by (simp add: enumValidator_def)
  have a: "list_ex (\<lambda>e. ci_prefix (the (enum_name e)) v) named \<Longrightarrow>
      \<exists>e. find (\<lambda>e. ci_prefix (the (enum_name e)) v) named = Some e"
    by (cases "find (\<lambda>e. ci_prefix (the (enum_name e)) v) named")
       (auto simp: find_None_iff list_ex_iff)
  have b: "\<not> list_ex (\<lambda>e. ci_prefix (the (enum_name e)) v) named \<Longrightarrow>
      find (\<lambda>e. ci_prefix (the (enum_name e)) v) named = None"
    by (auto simp: find_None_iff list_ex_iff)
  show ?thesis
  proof (intro conjI impI)
    assume "list_ex (\<lambda>e. ci_prefix (the (enum_name e)) v) named"
    then obtain e where "find (\<lambda>e. ci_prefix (the (enum_name e)) v) named = Some e"
      using a by blast
    then show "\<exists>e. find (\<lambda>e. ci_prefix (the (enum_name e)) v) named = Some e
        \<and> enumValidator conf key (StrArg v) = VALIDATE_OK (conf\<lparr>target := EnumPtr e\<rparr>)"
      using ev by simp
  next
    assume h: "\<not> list_ex (\<lambda>e. ci_prefix (the (enum_name e)) v) named
        \<and> (\<exists>s r. rest = s # r \<and> enum_name s = None)"
    then obtain s r where "rest = s # r" "enum_name s = None" by blast
    then show "enumValidator conf key (StrArg v) = VALIDATE_WRONG"
      using ev b h by simp
  qed
qed

text \<open>
  The table of \<open>logfile-level\<close>: \<open>debug\<close> is accepted as \<open>DEBUG\<close>, \<open>DEB\<close> is rejected.
\<close>

theorem enumValidator_accepts_extensions_witness:
  "enumValidator (configTable sample_macros ! 6) ''logfile-level'' (StrArg ''debug'')
     = VALIDATE_OK ((configTable sample_macros ! 6)
         \<lparr>target := EnumPtr \<lparr>enum_id = 0, enum_name = Some ''DEBUG''\<rparr>\<rparr>)
   \<and> enumValidator (configTable sample_macros ! 6) ''logfile-level'' (StrArg ''DEB'')
     = VALIDATE_WRONG"
proof -
  let ?named = "[\<lparr>enum_id = 0, enum_name = Some ''DEBUG''\<rparr>,
      \<lparr>enum_id = 1, enum_name = Some ''VERBOSE''\<rparr>,
      \<lparr>enum_id = 2, enum_name = Some ''NOTICE''\<rparr>,
      \<lparr>enum_id = 3, enum_name = Some ''WARNING''\<rparr>]"
  let ?rest = "[\<lparr>enum_id = - 1, enum_name = None\<rparr>]"
  let ?P = "\<lambda>v e. ci_prefix (the (enum_name e)) v"
  have h1: "helper (configTable sample_macros ! 6) = TableHelper (?named @ ?rest)"
    by (simp add: configTable_def Verbose_def sample_macros_def)
  have h2: "list_all (\<lambda>e. enum_name e \<noteq> None) ?named"
    by simp
  note t = enumValidator_accepts_extensions [OF h1 h2]
  have e1: "list_ex (?P ''debug'') ?named" by code_simp
  have f1: "find (?P ''debug'') ?named = Some \<lparr>enum_id = 0, enum_name = Some ''DEBUG''\<rparr>"
    by code_simp
  have e2: "\<not> list_ex (?P ''DEB'') ?named" by code_simp
  have r: "\<exists>s r. ?rest = s # r \<and> enum_name s = None" by simp
  have a: "enumValidator (configTable sample_macros ! 6) ''logfile-level'' (StrArg ''debug'')
     = VALIDATE_OK ((configTable sample_macros ! 6)
         \<lparr>target := EnumPtr \<lparr>enum_id = 0, enum_name = Some ''DEBUG''\<rparr>\<rparr>)"
    using t [of "''debug''" "''logfile-level''"] e1 f1 by (metis option.inject)
  have b: "enumValidator (configTable sample_macros ! 6) ''logfile-level'' (StrArg ''DEB'')
     = VALIDATE_WRONG"
    using t [of "''DEB''" "''logfile-level''"] e2 r by blast
  show ?thesis using a b by (rule conjI)
qed

text \<open>
  The claim C2 as stated fails: \<open>DEB\<close> is a non-empty prefix of the option name \<open>DEBUG\<close>
  of \<open>logfile-level\<close>, and the validator rejects it.
\<close>

theorem enumValidator_rejects_prefix_of_name:
  "ci_prefix ''DEB'' ''DEBUG'' \<and> ''DEB'' \<noteq> []
   \<and> enum_name (Verbose sample_macros ! 0) = Some ''DEBUG''
   \<and> helper (configTable sample_macros ! 6) = TableHelper (Verbose sample_macros)
   \<and> enumValidator (configTable sample_macros ! 6) ''logfile-level'' (StrArg ''DEB'')
       = VALIDATE_WRONG"
  by code_simp

text \<open>
  C4: the table \<open>Workers\<close> of \<open>worker-type\<close> has no sentinel: each of its entries has a name.
  On an input that matches neither name the scan of \<open>enumValidator\<close> leaves the table, for
  instance when the line \<open>worker-type foo\<close> is loaded.
\<close>

theorem Workers_scan_leaves_table:
  "list_all (\<lambda>e. enum_name e \<noteq> None) Workers
   \<and> helper (configTable M ! 4) = TableHelper Workers
   \<and> enumValidator (configTable M ! 4) ''worker-type'' (StrArg ''foo'') = Fault ReadPastTable
   \<and> loadConfigFile sample_macros (configTable sample_macros) ''worker-type foo'' None
       = Died ReadPastTable"
proof -
  have a: "list_all (\<lambda>e. enum_name e \<noteq> None) Workers"
    by (simp add: Workers_def)
  have b: "helper (configTable M ! 4) = TableHelper Workers"
    by (simp add: configTable_def)
  have n1: "\<not> ci_prefix ''SyncWorker'' ''foo''" by code_simp
  have n2: "\<not> ci_prefix ''AsyncWorker'' ''foo''" by code_simp
  have c: "enumLoop conf Workers ''foo'' = Fault ReadPastTable" for conf
    using n1 n2 by (simp add: Workers_def strncasecmp_candidate)
  have d: "enumValidator (configTable M ! 4) ''worker-type'' (StrArg ''foo'')
      = Fault ReadPastTable"
    using b c by (simp add: enumValidator_def)
  have e: "loadConfigFile sample_macros (configTable sample_macros) ''worker-type foo'' None
       = Died ReadPastTable"
    by code_simp
  show ?thesis using a b d e by simp
qed

section \<open>Properties of the integer validator\<close>

text \<open>
  C6: the token \<open>4294967295\<close> has ten digits, so the loop lets it through; \<open>atoi\<close> yields
  \<open>-1\<close>, which is not above the ceiling 1024 of \<open>worker-number\<close>, and \<open>-1\<close> is committed and
  copied into \<open>Server\<close>.
\<close>

theorem unsignedIntValidator_ten_digits_overflow:
  "helper (configTable M ! 3) = IntHelper 1024
   \<and> digitLoop ''4294967295'' 0
   \<and> unsignedIntValidator (configTable M ! 3) ''worker-number'' (StrArg ''4294967295'')
       = VALIDATE_OK ((configTable M ! 3)\<lparr>target := Val (- 1)\<rparr>)
   \<and> map_option worker_number
       (server_of (loadConfigFile sample_macros (configTable sample_macros)
          ''worker-number 4294967295'' None)) = Some (- 1)"
proof -
  have a: "helper (configTable M ! 3) = IntHelper 1024"
    by (simp add: configTable_def)
  have b: "digitLoop ''4294967295'' 0"
    by code_simp
  have c: "atoi ''4294967295'' = - 1"
    by code_simp
  have d: "unsignedIntValidator (configTable M ! 3) ''worker-number'' (StrArg ''4294967295'')
       = VALIDATE_OK ((configTable M ! 3)\<lparr>target := Val (- 1)\<rparr>)"
    using a b c by (simp add: unsignedIntValidator_def)
  have e: "map_option worker_number
       (server_of (loadConfigFile sample_macros (configTable sample_macros)
          ''worker-number 4294967295'' None)) = Some (- 1)"
    by code_simp
  show ?thesis using a b d e by simp
qed

section \<open>The list branch and the shipped registry\<close>

lemma getConfiguration_bound:
  "getConfiguration confs q = Some k \<Longrightarrow> k < length confs"
  using listSearch_shift [of confs q 0] by (simp add: getConfiguration_def)

lemma enumLoop_commits_enum:
  "enumLoop conf t v = VALIDATE_OK c1 \<Longrightarrow> \<exists>e. c1 = conf\<lparr>target := EnumPtr e\<rparr>"
  by (induction t) (auto split: option.splits if_splits)

lemma call_validator_no_list:
  assumes "call_validator conf key val = VALIDATE_OK c1"
    and "val = StrArg v \<or> val = IndeterminateArg"
  shows "format c1 = format conf \<and> \<not> holds_list (target c1)"
proof (cases "validator conf")
  case StringValidator
  then show ?thesis using assms
    by (auto simp: call_validator_def stringValidator_def holds_list_def Let_def
        split: if_splits)
next
  case ListValidator
  then show ?thesis using assms
    by (auto simp: call_validator_def listValidator_def holds_list_def)
next
  case UnsignedIntValidator
  then show ?thesis using assms
    by (auto simp: call_validator_def unsignedIntValidator_def holds_list_def
        split: if_splits helper.splits)
next
  case EnumValidator
  then show ?thesis using assms
    by (auto simp: call_validator_def enumValidator_def holds_list_def
        split: if_splits helper.splits dest!: enumLoop_commits_enum)
next
  case BoolValidator
  then show ?thesis using assms
    by (auto simp: call_validator_def boolValidator_def holds_list_def Let_def
        split: if_splits)
qed

lemma takesListBranch_no_list_entry:
  assumes "list_all (\<lambda>c. format c \<noteq> LIST_FORMAT \<and> \<not> holds_list (target c)) confs"
  shows "\<not> takesListBranch confs lines i"
proof -
  have "format (confs ! k) \<noteq> LIST_FORMAT" if "getConfiguration confs q = Some k" for q k
    using assms getConfiguration_bound [OF that] by (simp add: list_all_length)
  then show ?thesis
    by (auto simp: takesListBranch_def split: list.splits option.splits)
qed

lemma applyStep_keeps_no_list:
  assumes inv: "list_all (\<lambda>c. format c \<noteq> LIST_FORMAT \<and> \<not> holds_list (target c)) confs"
    and st: "applyStep M confs lines i = Next confs1 i1"
  shows "list_all (\<lambda>c. format c \<noteq> LIST_FORMAT \<and> \<not> holds_list (target c)) confs1"
proof (cases "confs1 = confs")
  case True
  then show ?thesis using inv by simp
next
  case False
  then obtain argvs k c1 val where
      g: "getConfiguration confs (argvs ! 0) = Some k"
      and v: "call_validator (confs ! k) (argvs ! 0) val = VALIDATE_OK c1"
      and a: "val = StrArg (argvs ! 1) \<or> val = IndeterminateArg"
      and c: "confs1 = confs[k := c1]"
    using st inv getConfiguration_bound
    by (auto simp: applyStep_def Let_def list_all_length catLoop.simps
        split: list.splits option.splits if_splits vresult.splits)
  have k: "k < length confs" using g by (rule getConfiguration_bound)
  have "format c1 = format (confs ! k) \<and> \<not> holds_list (target c1)"
    using v a by (auto dest: call_validator_no_list)
  then have "format c1 \<noteq> LIST_FORMAT \<and> \<not> holds_list (target c1)"
    using inv k by (simp add: list_all_length)
  then show ?thesis
    using inv c k by (auto simp: list_all_length nth_list_update)
qed

lemma visits_keeps_no_list:
  assumes "visits M lines confs0 s"
    and "list_all (\<lambda>c. format c \<noteq> LIST_FORMAT \<and> \<not> holds_list (target c)) confs0"
  shows "list_all (\<lambda>c. format c \<noteq> LIST_FORMAT \<and> \<not> holds_list (target c)) (fst s)"
  using assms
proof (induction rule: visits.induct)
  case visits_start
  then show ?case by simp
next
  case (visits_step confs i confs1 i1)
  then show ?case using applyStep_keeps_no_list by simp
qed

lemma applyLoop_keeps_no_list:
  "list_all (\<lambda>c. format c \<noteq> LIST_FORMAT \<and> \<not> holds_list (target c)) confs
   \<Longrightarrow> applyLoop M confs lines i = Applied confs1
   \<Longrightarrow> list_all (\<lambda>c. format c \<noteq> LIST_FORMAT \<and> \<not> holds_list (target c)) confs1"
proof (induction M confs lines i rule: applyLoop.induct)
  case (1 M confs lines i)
  show ?case
  proof (cases "i < length lines")
    case False
    then show ?thesis using "1.prems" by (simp add: applyLoop.simps)
  next
    case True
    then obtain c2 i2 where s: "applyStep M confs lines i = Next c2 i2"
        and l: "applyLoop M c2 lines (Suc i2) = Applied confs1"
      using "1.prems"(2) by (simp add: applyLoop.simps [of M confs] split: step.splits)
    have "list_all (\<lambda>c. format c \<noteq> LIST_FORMAT \<and> \<not> holds_list (target c)) c2"
      using "1.prems"(1) s by (rule applyStep_keeps_no_list)
    then show ?thesis using "1.IH" True s l by simp
  qed
qed

lemma applyConfig_Loaded:
  assumes "applyConfig M confs config = Loaded confs1 Server"
  shows "\<exists>ls. wstrNewSplit config (CHR 0x0A) = Some ls
           \<and> applyLoop M confs ls 0 = Applied confs1
           \<and> fillServerConfig confs1 = Some Server"
proof (cases "wstrNewSplit config (CHR 0x0A)")
  case None
  then show ?thesis using assms by (simp add: applyConfig_def)
next
  case (Some ls)
  show ?thesis
  proof (cases "applyLoop M confs ls 0")
    case (Applied c2)
    then show ?thesis using assms Some
      by (cases "fillServerConfig c2") (auto simp: applyConfig_def)
  next
    case (Halt n e)
    then show ?thesis using assms Some by (simp add: applyConfig_def)
  next
    case (Aborted f)
    then show ?thesis using assms Some by (simp add: applyConfig_def)
  qed
qed

lemma configTable_no_list:
  "list_all (\<lambda>c. format c \<noteq> LIST_FORMAT \<and> \<not> holds_list (target c)) (configTable M)"
  by (simp add: configTable_def holds_list_def)

text \<open>
  C10: no entry of \<open>configTable\<close> has the format \<open>LIST_FORMAT\<close>. Whatever the lines of the
  configuration text are, in every state that the loop of \<open>applyConfig\<close> reaches from the
  shipped registry the condition of the list branch is false and no entry holds a list;
  and the registry of a successful load holds no list.
\<close>

theorem list_branch_unreachable:
  assumes "visits M lines (configTable M) (confs, i)"
  shows "list_all (\<lambda>c. format c \<noteq> LIST_FORMAT) (configTable M)
         \<and> \<not> takesListBranch confs lines i
         \<and> list_all (\<lambda>c. format c \<noteq> LIST_FORMAT \<and> \<not> holds_list (target c)) confs
         \<and> (\<forall>config confs1 Server.
              applyConfig M (configTable M) config = Loaded confs1 Server \<longrightarrow>
              list_all (\<lambda>c. \<not> holds_list (target c)) confs1)"
proof -
  have a: "list_all (\<lambda>c. format c \<noteq> LIST_FORMAT) (configTable M)"
    using configTable_no_list [of M] by (simp add: list_all_iff)
  have c: "list_all (\<lambda>c. format c \<noteq> LIST_FORMAT \<and> \<not> holds_list (target c)) confs"
    using visits_keeps_no_list [OF assms configTable_no_list] by simp
  have b: "\<not> takesListBranch confs lines i"
    using c by (rule takesListBranch_no_list_entry)
  have d: "list_all (\<lambda>c. \<not> holds_list (target c)) confs1"
    if h: "applyConfig M (configTable M) config = Loaded confs1 Server"
    for config confs1 Server
  proof -
    obtain ls where "applyLoop M (configTable M) ls 0 = Applied confs1"
      using applyConfig_Loaded [OF h] by blast
    then have "list_all (\<lambda>c. format c \<noteq> LIST_FORMAT \<and> \<not> holds_list (target c)) confs1"
      using configTable_no_list applyLoop_keeps_no_list by blast
    then show ?thesis by (simp add: list_all_iff)
  qed
  show ?thesis using a b c d by blast
qed

text \<open>
  The start state of a load of the line \<open>daemon on\<close>: the loop is not in the list branch.
\<close>

theorem list_branch_unreachable_witness:
  "\<not> takesListBranch (configTable sample_macros) [''daemon on''] 0
   \<and> list_all (\<lambda>c. format c \<noteq> LIST_FORMAT) (configTable sample_macros)"
proof -
  have v: "visits sample_macros [''daemon on''] (configTable sample_macros)
      (configTable sample_macros, 0)"
    by (rule visits_start)
  show ?thesis using list_branch_unreachable [OF v] by blast
qed

section \<open>The load and the check that follows it\<close>

lemma fillServerConfig_reads:
  assumes "fillServerConfig confs = Some Server"
  shows "target_ptr (confs ! 1) = Some (bind_addr Server)
         \<and> target_val (confs ! 2) = Some (port Server)
         \<and> target_val (confs ! 3) = Some (worker_number Server)
         \<and> map_option enum_name (target_enum_ptr (confs ! 4)) = Some (worker_type Server)
         \<and> target_ptr (confs ! 5) = Some (logfile Server)
         \<and> map_option enum_id (target_enum_ptr (confs ! 6)) = Some (verbose Server)
         \<and> target_val (confs ! 7) = Some (daemon Server)
         \<and> target_ptr (confs ! 8) = Some (pidfile Server)
         \<and> target_val (confs ! 9) = Some (max_buffer_size Server)
         \<and> target_ptr (confs ! 10) = Some (stat_addr Server)
         \<and> target_val (confs ! 11) = Some (stat_port Server)
         \<and> target_val (confs ! 12) = Some (stat_refresh_seconds Server)
         \<and> target_ptr (confs ! 13) = Some (stat_file Server)
         \<and> target_val (confs ! 14) = Some (worker_timeout Server)
         \<and> target_val (confs ! 15) = Some (mbuf_size Server)"
  using assms
  by (auto simp: fillServerConfig_def split: if_splits Option.bind_splits)

lemma fillServerConfig_skips_first:
  "fillServerConfig (confs[0 := c]) = fillServerConfig confs"
  by (simp add: fillServerConfig_def)

text \<open>
  C9, as amended: after a successful \<open>applyConfig\<close> the fields of \<open>Server\<close> hold the values
  of the entries 1 to 15 of the registry; the entry 0 (\<open>protocol\<close>) is not read. Then the
  check runs: the load dies on a failed assertion unless the refresh interval is below the
  timeout and both ports are nonzero.
\<close>

theorem post_load_check:
  assumes "applyConfig M confs
             (case options of None \<Rightarrow> file | Some opts \<Rightarrow> file @ [CHR 0x0A] @ opts)
           = Loaded confs1 Server"
  shows "loadConfigFile M confs file options =
           (if stat_refresh_seconds Server < worker_timeout Server
               \<and> port Server \<noteq> 0 \<and> stat_port Server \<noteq> 0
            then Loaded confs1 Server else Died AssertFailed)
         \<and> fillServerConfig confs1 = Some Server
         \<and> fillServerConfig (confs1[0 := c]) = Some Server
         \<and> target_ptr (confs1 ! 1) = Some (bind_addr Server)
         \<and> target_val (confs1 ! 2) = Some (port Server)
         \<and> target_val (confs1 ! 3) = Some (worker_number Server)
         \<and> map_option enum_name (target_enum_ptr (confs1 ! 4)) = Some (worker_type Server)
         \<and> target_ptr (confs1 ! 5) = Some (logfile Server)
         \<and> map_option enum_id (target_enum_ptr (confs1 ! 6)) = Some (verbose Server)
         \<and> target_val (confs1 ! 7) = Some (daemon Server)
         \<and> target_ptr (confs1 ! 8) = Some (pidfile Server)
         \<and> target_val (confs1 ! 9) = Some (max_buffer_size Server)
         \<and> target_ptr (confs1 ! 10) = Some (stat_addr Server)
         \<and> target_val (confs1 ! 11) = Some (stat_port Server)
         \<and> target_val (confs1 ! 12) = Some (stat_refresh_seconds Server)
         \<and> target_ptr (confs1 ! 13) = Some (stat_file Server)
         \<and> target_val (confs1 ! 14) = Some (worker_timeout Server)
         \<and> target_val (confs1 ! 15) = Some (mbuf_size Server)"
proof -
  have f: "fillServerConfig confs1 = Some Server"
    using applyConfig_Loaded [OF assms] by blast
  have l: "loadConfigFile M confs file options =
           (if stat_refresh_seconds Server < worker_timeout Server
               \<and> port Server \<noteq> 0 \<and> stat_port Server \<noteq> 0
            then Loaded confs1 Server else Died AssertFailed)"
    using assms by (simp add: loadConfigFile_def extraValidator_def)
  show ?thesis
    using l f fillServerConfig_reads [OF f] fillServerConfig_skips_first [of confs1 c]
    by simp
qed

text \<open>
  Scenario F: \<open>stat-refresh-time 400\<close> with \<open>timeout-seconds 300\<close> loads and then fails the
  check.
\<close>

theorem post_load_check_witness:
  "loadConfigFile sample_macros (configTable sample_macros)
     ''stat-refresh-time 400'' (Some ''timeout-seconds 300'') = Died AssertFailed"
proof -
  let ?r = "applyConfig sample_macros (configTable sample_macros)
      (case Some ''timeout-seconds 300'' of None \<Rightarrow> ''stat-refresh-time 400''
       | Some opts \<Rightarrow> ''stat-refresh-time 400'' @ [CHR 0x0A] @ opts)"
  have e: "?r = Loaded (registry_of ?r) (the (server_of ?r))"
    by code_simp
  have n: "\<not> (stat_refresh_seconds (the (server_of ?r)) < worker_timeout (the (server_of ?r))
      \<and> port (the (server_of ?r)) \<noteq> 0 \<and> stat_port (the (server_of ?r)) \<noteq> 0)"
    by code_simp
  have "loadConfigFile sample_macros (configTable sample_macros)
     ''stat-refresh-time 400'' (Some ''timeout-seconds 300'') =
       (if stat_refresh_seconds (the (server_of ?r)) < worker_timeout (the (server_of ?r))
           \<and> port (the (server_of ?r)) \<noteq> 0 \<and> stat_port (the (server_of ?r)) \<noteq> 0
        then Loaded (registry_of ?r) (the (server_of ?r)) else Died AssertFailed)"
    using post_load_check [OF e] by blast
  then show ?thesis using n by (simp only: if_False)
qed

text \<open>
  The claim C9 as stated fails: two loads that register different values of \<open>protocol\<close>
  fill \<open>Server\<close> identically, so the value of \<open>protocol\<close> is not copied.
\<close>

theorem protocol_value_not_copied:
  "target (registry_of (loadConfigFile sample_macros (configTable sample_macros)
      ''protocol Redis'' None) ! 0) = StrPtr ''Redis''
   \<and> target (registry_of (loadConfigFile sample_macros (configTable sample_macros)
      ''protocol Memcache'' None) ! 0) = StrPtr ''Memcache''
   \<and> server_of (loadConfigFile sample_macros (configTable sample_macros)
      ''protocol Redis'' None) \<noteq> None
   \<and> server_of (loadConfigFile sample_macros (configTable sample_macros)
      ''protocol Redis'' None)
     = server_of (loadConfigFile sample_macros (configTable sample_macros)
      ''protocol Memcache'' None)"
  by code_simp

section \<open>The list block\<close>

lemma scanItem_valid:
  "scanItem s True =
     (case dropWhile (\<lambda>c. c = CHR '' '') s of
        [] \<Rightarrow> LineDone None
      | d # t \<Rightarrow> if d = CHR ''-'' then HandleError else LineDone (Some (d # t)))"
  by (induction s) auto

lemma scanItem_start:
  "scanItem s False =
     (case dropWhile (\<lambda>c. c = CHR '' '') s of
        [] \<Rightarrow> LineDone None
      | c # r \<Rightarrow> if c = CHR ''-'' then scanItem r True else HandleError)"
  by (induction s) auto

lemma scanItem_ends_block: "(scanItem s False = HandleError) = ends_block s"
proof (cases "dropWhile (\<lambda>c. c = CHR '' '') s")
  case Nil
  show ?thesis
    by (simp add: scanItem_start ends_block_def Nil)
next
  case s1: (Cons c r)
  show ?thesis
  proof (cases "c = CHR ''-''")
    case False
    show ?thesis
      by (simp add: scanItem_start ends_block_def s1 False)
  next
    case True
    show ?thesis
    proof (cases "dropWhile (\<lambda>c. c = CHR '' '') r")
      case Nil
      show ?thesis
        by (simp add: scanItem_start scanItem_valid ends_block_def s1 True Nil)
    next
      case (Cons d t)
      show ?thesis
        by (simp add: scanItem_start scanItem_valid ends_block_def s1 True Cons)
    qed
  qed
qed

lemma scanItem_item_text:
  assumes "scanItem s False = LineDone x"
  shows "item_text s = (case x of None \<Rightarrow> [] | Some t \<Rightarrow> [t])"
proof (cases "dropWhile (\<lambda>c. c = CHR '' '') s")
  case Nil
  have "scanItem s False = LineDone None"
    by (simp add: scanItem_start Nil)
  then have "x = None" using assms by simp
  then show ?thesis
    by (simp add: item_text_def Nil)
next
  case s1: (Cons c r)
  show ?thesis
  proof (cases "c = CHR ''-''")
    case False
    have "scanItem s False = HandleError"
      by (simp add: scanItem_start s1 False)
    then show ?thesis using assms by simp
  next
    case True
    show ?thesis
    proof (cases "dropWhile (\<lambda>c. c = CHR '' '') r")
      case Nil
      have "scanItem s False = LineDone None"
        by (simp add: scanItem_start scanItem_valid s1 True Nil)
      then have "x = None" using assms by simp
      then show ?thesis
        by (simp add: item_text_def s1 True Nil)
    next
      case (Cons d t)
      have "scanItem s False =
          (if d = CHR ''-'' then HandleError else LineDone (Some (d # t)))"
        by (simp add: scanItem_start scanItem_valid s1 True Cons)
      then have "x = Some (d # t)" using assms by (simp split: if_splits)
      then show ?thesis
        by (simp add: item_text_def s1 True Cons)
    qed
  qed
qed

lemma handleListLoop_eq:
  "handleListLoop rest pos l =
     (l @ concat (map (\<lambda>ln. item_text (wstrStrip ln strip_chars))
            (takeWhile (\<lambda>ln. \<not> ends_block (wstrStrip ln strip_chars)) rest)),
      pos + length (takeWhile (\<lambda>ln. \<not> ends_block (wstrStrip ln strip_chars)) rest))"
proof (induction rest arbitrary: pos l)
  case Nil
  show ?case by simp
next
  case (Cons ln rest)
  show ?case
  proof (cases "scanItem (wstrStrip ln strip_chars) False")
    case HandleError
    then have "ends_block (wstrStrip ln strip_chars)"
      by (simp add: scanItem_ends_block)
    then show ?thesis using HandleError by simp
  next
    case (LineDone x)
    then have n: "\<not> ends_block (wstrStrip ln strip_chars)"
      using scanItem_ends_block [of "wstrStrip ln strip_chars"] by simp
    have t: "item_text (wstrStrip ln strip_chars) = (case x of None \<Rightarrow> [] | Some t \<Rightarrow> [t])"
      using LineDone by (rule scanItem_item_text)
    show ?thesis
      using LineDone n t Cons.IH by (cases x) simp_all
  qed
qed

lemma handleList_eq:
  "handleList lines i =
     (concat (map (\<lambda>ln. item_text (wstrStrip ln strip_chars))
        (takeWhile (\<lambda>ln. \<not> ends_block (wstrStrip ln strip_chars)) (drop (Suc i) lines))),
      i + length (takeWhile (\<lambda>ln. \<not> ends_block (wstrStrip ln strip_chars))
             (drop (Suc i) lines)))"
  by (simp add: handleList_def handleListLoop_eq)

lemma handleList_range:
  assumes "i < length lines" and "p = snd (handleList lines i)"
  shows "i \<le> p \<and> p < length lines
         \<and> (\<forall>j. i < j \<and> j \<le> p \<longrightarrow> \<not> ends_block (wstrStrip (lines ! j) strip_chars))
         \<and> (Suc p < length lines \<longrightarrow> ends_block (wstrStrip (lines ! Suc p) strip_chars))"
proof -
  let ?ok = "\<lambda>ln. \<not> ends_block (wstrStrip ln strip_chars)"
  let ?d = "drop (Suc i) lines"
  let ?n = "length (takeWhile ?ok ?d)"
  have p: "p = i + ?n" using assms(2) by (simp add: handleList_eq)
  have le: "?n \<le> length ?d" by (rule length_takeWhile_le)
  have a: "i \<le> p \<and> p < length lines" using p le assms(1) by simp
  have b: "\<not> ends_block (wstrStrip (lines ! j) strip_chars)" if "i < j \<and> j \<le> p" for j
  proof -
    have k: "j - Suc i < ?n" using that p by arith
    then have "takeWhile ?ok ?d ! (j - Suc i) \<in> set (takeWhile ?ok ?d)"
      by (rule nth_mem)
    then have "?ok (takeWhile ?ok ?d ! (j - Suc i))"
      by (rule set_takeWhileD [THEN conjunct2])
    moreover have "takeWhile ?ok ?d ! (j - Suc i) = ?d ! (j - Suc i)"
      using k by (rule takeWhile_nth)
    moreover have "?d ! (j - Suc i) = lines ! j"
      using that a by simp
    ultimately show ?thesis by simp
  qed
  have c: "ends_block (wstrStrip (lines ! Suc p) strip_chars)" if "Suc p < length lines"
  proof -
    have "?n < length ?d" using that p by simp
    then have "\<not> ?ok (?d ! ?n)" by (rule nth_length_takeWhile)
    moreover have "?d ! ?n = lines ! Suc p" using that p by simp
    ultimately show ?thesis by simp
  qed
  show ?thesis using a b c by blast
qed

lemma applyStep_list_branch:
  assumes "takesListBranch confs lines i"
    and "applyStep M confs lines i = Next confs1 i1"
  shows "i1 = snd (handleList lines i)"
  using assms
  by (auto simp: takesListBranch_def applyStep_def Let_def split_def
      split: list.splits if_splits option.splits vresult.splits)

text \<open>
  C5, as amended: \<open>handleList\<close> consumes the longest run of lines behind line \<open>i\<close> that do
  not end a block, where a line ends a block when, after stripping, its first character
  other than a space is not the marker or a second marker follows the first; blank lines
  and lone markers are consumed and contribute no item. The items are collected in line
  order. The position returned is that of the last line consumed, so that the loop of
  \<open>applyConfig\<close>, which adds one, continues at the line that ended the block.
\<close>

theorem handleList_block:
  assumes "i < length lines"
  shows "handleList lines i =
           (concat (map (\<lambda>ln. item_text (wstrStrip ln strip_chars))
              (takeWhile (\<lambda>ln. \<not> ends_block (wstrStrip ln strip_chars))
                 (drop (Suc i) lines))),
            i + length (takeWhile (\<lambda>ln. \<not> ends_block (wstrStrip ln strip_chars))
                 (drop (Suc i) lines)))
         \<and> i \<le> snd (handleList lines i) \<and> snd (handleList lines i) < length lines
         \<and> (\<forall>j. i < j \<and> j \<le> snd (handleList lines i) \<longrightarrow>
               \<not> ends_block (wstrStrip (lines ! j) strip_chars))
         \<and> (Suc (snd (handleList lines i)) < length lines \<longrightarrow>
               ends_block (wstrStrip (lines ! Suc (snd (handleList lines i))) strip_chars))
         \<and> (\<forall>confs1 i1. takesListBranch confs lines i
               \<and> applyStep M confs lines i = Next confs1 i1 \<longrightarrow>
               i1 = snd (handleList lines i)
               \<and> applyLoop M confs lines i = applyLoop M confs1 lines (Suc i1))"
proof -
  have l: "i1 = snd (handleList lines i)
      \<and> applyLoop M confs lines i = applyLoop M confs1 lines (Suc i1)"
    if "takesListBranch confs lines i \<and> applyStep M confs lines i = Next confs1 i1"
    for confs1 i1
    using that assms applyStep_list_branch [of confs lines i M confs1 i1]
    by (simp add: applyLoop.simps [of M confs lines i])
  show ?thesis
    using handleList_eq [of lines i] handleList_range [OF assms refl] l by blast
qed

text \<open>
  Scenario D with a list entry \<open>mylist\<close> registered behind the shipped table: the block
  of \<open>mylist\<close> ends before \<open>port 80\<close>, and the loop continues at that line.
\<close>

theorem handleList_block_witness:
  "snd (handleList [''mylist'', ''- alpha'', ''- beta'', ''port 80''] 0) = 2
   \<and> applyLoop sample_macros
       (configTable sample_macros @
        [\<lparr>name = ''mylist'', args = - 1, validator = ListValidator, target = NullPtr,
          helper = NoHelper, format = LIST_FORMAT\<rparr>])
       [''mylist'', ''- alpha'', ''- beta'', ''port 80''] 0
     = applyLoop sample_macros
       ((configTable sample_macros @
        [\<lparr>name = ''mylist'', args = - 1, validator = ListValidator, target = NullPtr,
          helper = NoHelper, format = LIST_FORMAT\<rparr>])
        [16 := \<lparr>name = ''mylist'', args = - 1, validator = ListValidator,
                target = ListPtr [''alpha'', ''beta''],
                helper = NoHelper, format = LIST_FORMAT\<rparr>])
       [''mylist'', ''- alpha'', ''- beta'', ''port 80''] (Suc 2)"
proof -
  let ?lines = "[''mylist'', ''- alpha'', ''- beta'', ''port 80'']"
  let ?reg = "configTable sample_macros @
        [\<lparr>name = ''mylist'', args = - 1, validator = ListValidator, target = NullPtr,
          helper = NoHelper, format = LIST_FORMAT\<rparr>]"
  let ?reg1 = "?reg
        [16 := \<lparr>name = ''mylist'', args = - 1, validator = ListValidator,
                target = ListPtr [''alpha'', ''beta''],
                helper = NoHelper, format = LIST_FORMAT\<rparr>]"
  have i: "0 < length ?lines" by simp
  have tb: "takesListBranch ?reg ?lines 0" by code_simp
  have st: "applyStep sample_macros ?reg ?lines 0 = Next ?reg1 2" by code_simp
  have "2 = snd (handleList ?lines 0)
      \<and> applyLoop sample_macros ?reg ?lines 0 = applyLoop sample_macros ?reg1 ?lines (Suc 2)"
    using handleList_block [OF i, of ?reg sample_macros] tb st by blast
  then show ?thesis by simp
qed

text \<open>
  The claim C5 as stated fails: in the lines below, line 2 is blank, so it is the first
  line behind \<open>mylist\<close> that does not match the item pattern, but \<open>handleList\<close> consumes it and
  the item line behind it; the block ends only before \<open>port 80\<close>.
\<close>

theorem blank_line_does_not_end_block:
  "item_line (wstrStrip ([''mylist'', ''- a'', '''', ''- b'', ''port 80''] ! 1) strip_chars)
   \<and> \<not> item_line (wstrStrip ([''mylist'', ''- a'', '''', ''- b'', ''port 80''] ! 2) strip_chars)
   \<and> handleList [''mylist'', ''- a'', '''', ''- b'', ''port 80''] 0 = ([''a'', ''b''], 3)"
  by code_simp

section \<open>Properties of the arity repair\<close>







section \<open>Formatting a value and parsing it again\<close>

subsection \<open>Splitting and stripping a line that needs neither\<close>




subsection \<open>Decimal digits\<close>








subsection \<open>Registries that are the shipped table with other values\<close>














subsection \<open>One line that names an entry of the shipped registry\<close>




subsection \<open>Integers\<close>






subsection \<open>Enum values\<close>





subsection \<open>Strings\<close>




subsection \<open>The round trip\<close>




end
